theory Spec2Isabelle
  imports Main "HOL-Library.Sublist"
begin

section \<open>Strings\<close>

text \<open>
  A Python \<open>str\<close> is a sequence of Unicode code points, and \<open>len\<close> counts code points.
  The gazetteer holds Maltese names (U+0126, U+0120, U+017B, ...), which do not fit the
  8-bit \<open>char\<close> of HOL, so a character is its code point and a string a list of them.
  \<open>ustr\<close> embeds an ASCII literal.
\<close>

type_synonym uchar = nat
type_synonym ustring = "uchar list"

definition ustr :: "string \<Rightarrow> ustring" where
  "ustr s = map of_char s"

text \<open>The non-ASCII (and quote) characters that occur in the source, by code point.\<close>

abbreviation (input) APOS :: uchar where "APOS \<equiv> 39"            \<comment> \<open>U+0027 apostrophe\<close>
abbreviation (input) H_STROKE :: uchar where "H_STROKE \<equiv> 294"     \<comment> \<open>U+0126\<close>
abbreviation (input) h_stroke :: uchar where "h_stroke \<equiv> 295"     \<comment> \<open>U+0127\<close>
abbreviation (input) G_DOT :: uchar where "G_DOT \<equiv> 288"           \<comment> \<open>U+0120\<close>
abbreviation (input) g_dot :: uchar where "g_dot \<equiv> 289"           \<comment> \<open>U+0121\<close>
abbreviation (input) Z_DOT :: uchar where "Z_DOT \<equiv> 379"           \<comment> \<open>U+017B\<close>
abbreviation (input) z_dot :: uchar where "z_dot \<equiv> 380"           \<comment> \<open>U+017C\<close>
abbreviation (input) C_DOT :: uchar where "C_DOT \<equiv> 266"           \<comment> \<open>U+010A\<close>
abbreviation (input) c_dot :: uchar where "c_dot \<equiv> 267"           \<comment> \<open>U+010B\<close>
abbreviation (input) a_grave :: uchar where "a_grave \<equiv> 224"       \<comment> \<open>U+00E0\<close>
abbreviation (input) LSQUO :: uchar where "LSQUO \<equiv> 8216"          \<comment> \<open>U+2018\<close>
abbreviation (input) RSQUO :: uchar where "RSQUO \<equiv> 8217"          \<comment> \<open>U+2019\<close>

text \<open>
  \<open>str.replace(old, new)\<close>: every non-overlapping occurrence of \<open>old\<close>, scanning from the
  left. With an empty \<open>old\<close> Python puts \<open>new\<close> before every character and at the end.
\<close>

function str_replace :: "ustring \<Rightarrow> ustring \<Rightarrow> ustring \<Rightarrow> ustring" where
  "str_replace old new [] = (if old = [] then new else [])"
| "str_replace old new (c # cs) =
     (if old = [] then new @ c # str_replace old new cs
      else if prefix old (c # cs) then new @ str_replace old new (drop (length old) (c # cs))
      else c # str_replace old new cs)"
  by pat_completeness auto
termination
  by (relation "measure (\<lambda>(old, new, s). length s)") auto

section \<open>Text normalizer\<close>

text \<open>\<open>create_ascii_mapping\<close>: the dict, in insertion order (the order \<open>items()\<close> yields).\<close>

definition create_ascii_mapping :: "(ustring \<times> ustring) list" where
  "create_ascii_mapping =
    [([H_STROKE], ustr ''H''), ([h_stroke], ustr ''h''),
     ([G_DOT], ustr ''G''), ([g_dot], ustr ''g''),
     ([Z_DOT], ustr ''Z''), ([z_dot], ustr ''z''),
     ([C_DOT], ustr ''C''), ([c_dot], ustr ''c''),
     ([192], ustr ''A''), ([224], ustr ''a''),
     ([200], ustr ''E''), ([232], ustr ''e''),
     ([204], ustr ''I''), ([236], ustr ''i''),
     ([210], ustr ''O''), ([242], ustr ''o''),
     ([217], ustr ''U''), ([249], ustr ''u''),
     ([LSQUO], [APOS]),
     ([RSQUO], [APOS])]"

definition to_ascii :: "ustring \<Rightarrow> ustring" where
  "to_ascii text = fold (\<lambda>(maltese, ascii_char) result. str_replace maltese ascii_char result)
                        create_ascii_mapping text"

definition apostrophes :: "ustring list" where
  "apostrophes = [[LSQUO], [RSQUO], [96], [180], [8242]]"

definition normalize_apostrophes :: "ustring \<Rightarrow> ustring" where
  "normalize_apostrophes text = fold (\<lambda>apos t. str_replace apos [APOS] t) apostrophes text"

section \<open>Variant generator\<close>

definition prefixes :: "ustring list" where
  "prefixes =
    [ustr ''Il-'', ustr ''L-'', H_STROKE # ustr ''al '', [H_STROKE, 97, z_dot, 45], [H_STROKE, APOS],
     ustr ''Is-'', [73, z_dot, 45], ustr ''In-'', ustr ''Ir-'', ustr ''Ix-'',
     ustr ''Ta'' @ [APOS, 32], ustr ''Tal-'', ustr ''Tas-'']"

text \<open>
  The \<open>for prefix in prefixes\<close> loop of \<open>create_town_variations\<close>: the first prefix the
  town starts with ends the loop (\<open>break\<close>), whether or not its remainder was appended.
\<close>

fun strip_first_prefix :: "ustring list \<Rightarrow> ustring \<Rightarrow> ustring list \<Rightarrow> ustring list" where
  "strip_first_prefix [] town variations = variations"
| "strip_first_prefix (p # ps) town variations =
     (if prefix p town then
        (let base_name = drop (length p) town
         in if base_name \<noteq> [] \<and> base_name \<notin> set variations then variations @ [base_name]
            else variations)
      else strip_first_prefix ps town variations)"

definition create_town_variations :: "ustring \<Rightarrow> ustring list" where
  "create_town_variations town = strip_first_prefix prefixes town [town]"

section \<open>Alias catalog\<close>

definition get_english_aliases :: "(ustring \<times> ustring list) list" where
  "get_english_aliases =
    [(ustr ''Ra'' @ [h_stroke] @ ustr ''al '' @ [G_DOT] @ ustr ''did'', [ustr ''Paola'']),
     (ustr ''Bormla'', [ustr ''Cospicua'']),
     (ustr ''Il-Birgu'', [ustr ''Vittoriosa'']),
     (ustr ''L-Isla'', [ustr ''Senglea'']),
     (ustr ''San Pawl Il-Ba'' @ [h_stroke] @ ustr ''ar'',
        [ustr ''St Paul'' @ [APOS] @ ustr ''s Bay'', ustr ''St. Paul'' @ [APOS] @ ustr ''s Bay'',
         ustr ''St Pauls Bay'', ustr ''Bu'' @ [g_dot] @ ustr ''ibba'', ustr ''Bugibba'',
         ustr ''Qawra'', ustr ''St Paul'' @ [RSQUO] @ ustr ''s Bay'',
         ustr ''St. Paul'' @ [RSQUO] @ ustr ''s Bay'']),
     (ustr ''L-Imtarfa'', [ustr ''Mtarfa'']),
     (ustr ''Il-G'' @ [z_dot] @ ustr ''ira'', [ustr ''Gzira'']),
     (ustr ''L-Im'' @ [g_dot] @ ustr ''arr'', [ustr ''Mgarr'', ustr ''M'' @ [g_dot] @ ustr ''arr'']),
     ([H_STROKE] @ ustr ''al Ghaxaq'', [ustr ''G'' @ [h_stroke] @ ustr ''axaq'', ustr ''Ghaxaq'']),
     (ustr ''Ir-Rabat'', [ustr ''Victoria'']),
     (ustr ''San '' @ [G_DOT] @ ustr ''iljan'',
        [ustr ''St Julian'' @ [APOS] @ ustr ''s'', ustr ''St. Julian'' @ [APOS] @ ustr ''s'',
         ustr ''St Julians'', ustr ''St. Julians'',
         ustr ''St Julian'' @ [RSQUO] @ ustr ''s'', ustr ''St. Julian'' @ [RSQUO] @ ustr ''s'']),
     (ustr ''Tal-Pieta'' @ [APOS],
        [ustr ''Tal-Piet'' @ [a_grave], ustr ''Piet'' @ [a_grave], ustr ''Pieta'',
         ustr ''Gwardaman'' @ [g_dot] @ ustr ''a'', ustr ''Gwardamanga'']),
     (ustr ''Marsaskala'', [ustr ''Marsascala'']),
     ([H_STROKE, APOS] @ ustr ''Attard'', [ustr ''Attard'']),
     (ustr ''Il-Mellie'' @ [h_stroke] @ ustr ''a'',
        [ustr ''Mellieha'', ustr ''Mellie'' @ [h_stroke] @ ustr ''a'']),
     (ustr ''L-Imsida'', [ustr ''Msida'']),
     (ustr ''Is-Swieqi'', [ustr ''Swieqi'']),
     ([H_STROKE] @ ustr ''al Balzan'', [ustr ''Balzan'']),
     (ustr ''Ta'' @ [APOS] @ ustr '' Xbiex'', [ustr ''Xbiex''])]"

section \<open>Town lookup index\<close>

text \<open>
  The gazetteer is the \<open>Town\<close> column of \<open>locations_df\<close>, in row order. The loop over
  \<open>variations\<close> that collects the ASCII folds reads \<open>variations\<close> (unchanged in the loop)
  and appends to \<open>ascii_variations\<close>.
\<close>

type_synonym gazetteer = "ustring list"

fun ascii_loop :: "ustring list \<Rightarrow> ustring list \<Rightarrow> ustring list \<Rightarrow> ustring list" where
  "ascii_loop variations [] ascii_variations = ascii_variations"
| "ascii_loop variations (var # rest) ascii_variations =
     (let ascii_var = to_ascii var
      in ascii_loop variations rest
           (if ascii_var \<noteq> var \<and> ascii_var \<notin> set variations \<and> ascii_var \<notin> set ascii_variations
            then ascii_variations @ [ascii_var] else ascii_variations))"

text \<open>The body of the loop over the rows: the entry appended to \<open>lookup\<close> for one town.\<close>

definition town_entry :: "ustring \<Rightarrow> ustring \<times> ustring list" where
  "town_entry town =
     (let variations = create_town_variations town;
          variations = (case map_of get_english_aliases town of
                          Some aliases \<Rightarrow> variations @ aliases
                        | None \<Rightarrow> variations);
          ascii_variations = ascii_loop variations variations []
      in (town, variations @ ascii_variations))"

text \<open>
  The sort key \<open>max(len(v) for v in x[1])\<close>. Python's \<open>max\<close> raises on an empty sequence;
  that never happens here, since every variant list holds the town (lemma
  \<open>town_entry_has_town\<close> below), and there \<open>max_len\<close> is the maximum (lemma \<open>max_len_Max\<close>).
\<close>

definition max_len :: "ustring list \<Rightarrow> nat" where
  "max_len vs = foldr (\<lambda>v m. max (length v) m) vs 0"

text \<open>
  \<open>list.sort(key=..., reverse=True)\<close>: descending by key, and stable (elements of equal
  key keep their order), which is the stable ascending sort on the negated key.
\<close>

definition sort_desc :: "('a \<Rightarrow> nat) \<Rightarrow> 'a list \<Rightarrow> 'a list" where
  "sort_desc key xs = sort_key (\<lambda>x. - int (key x)) xs"

definition build_town_lookup :: "gazetteer \<Rightarrow> (ustring \<times> ustring list) list" where
  "build_town_lookup locations = sort_desc (\<lambda>x. max_len (snd x)) (map town_entry locations)"

section \<open>Regular expressions\<close>

text \<open>
  The extractors search the text with Python's \<open>re\<close>. Its Unicode tables are not part
  of the repository, so they are a parameter of the model: which characters \<open>\w\<close> accepts,
  which are white space (\<open>\s\<close>, and what \<open>str.strip\<close> removes), and which two characters
  are equal under \<open>re.IGNORECASE\<close>.
\<close>

record chartab =
  is_word :: "uchar \<Rightarrow> bool"
  is_space :: "uchar \<Rightarrow> bool"
  same_caseless :: "uchar \<Rightarrow> uchar \<Rightarrow> bool"

text \<open>
  The constructs that occur in the patterns of the source. \<open>Lit\<close> is a literal string
  (what \<open>re.escape\<close> produces), \<open>Cls neg items\<close> a character class (negated when \<open>neg\<close>),
  \<open>AnyChar\<close> the dot, \<open>Bol\<close> and \<open>Eol\<close> the anchors \<open>^\<close> and \<open>$\<close>, \<open>WordB\<close> is \<open>\b\<close>,
  \<open>Rep r lo hi greedy\<close> the quantifiers (\<open>hi = None\<close>: unbounded), and \<open>Grp\<close> the one
  capturing group each pattern has.
\<close>

datatype citem = CChar uchar | CWord | CSpace

datatype rx =
    Lit ustring
  | Cls bool "citem list"
  | AnyChar
  | Bol
  | Eol
  | WordB
  | Seq rx rx
  | Alt rx rx
  | Rep rx nat "nat option" bool
  | Grp rx

definition char_eq :: "chartab \<Rightarrow> bool \<Rightarrow> uchar \<Rightarrow> uchar \<Rightarrow> bool" where
  "char_eq T icase a b = (if icase then same_caseless T a b else a = b)"

fun lit_at :: "(uchar \<Rightarrow> uchar \<Rightarrow> bool) \<Rightarrow> ustring \<Rightarrow> ustring \<Rightarrow> bool" where
  "lit_at eq [] s = True"
| "lit_at eq (l # ls) [] = False"
| "lit_at eq (l # ls) (c # cs) = (eq l c \<and> lit_at eq ls cs)"

fun citem_ok :: "chartab \<Rightarrow> bool \<Rightarrow> uchar \<Rightarrow> citem \<Rightarrow> bool" where
  "citem_ok T icase c (CChar a) = char_eq T icase a c"
| "citem_ok T icase c CWord = is_word T c"
| "citem_ok T icase c CSpace = is_space T c"

definition word_boundary :: "chartab \<Rightarrow> ustring \<Rightarrow> nat \<Rightarrow> bool" where
  "word_boundary T s p =
     ((0 < p \<and> is_word T (s ! (p - 1))) \<noteq> (p < length s \<and> is_word T (s ! p)))"

text \<open>
  A matcher state is the position reached and the span of group 1, if it has matched.
  The matcher is the backtracking search of \<open>re\<close> as a list of successes: all the ways
  the pattern matches from a state, in the order backtracking tries them, so that the
  head of the list is the match \<open>re\<close> reports.

  \<open>reps\<close> is a quantifier: \<open>lo\<close> and \<open>hi\<close> are the iterations still required and still
  allowed. An iteration that consumes nothing is not repeated (the bodies in the source's
  patterns consume at least one character), so the fuel, one more than the characters
  left, is never used up (lemma \<open>rep_fuel_enough\<close> below).
\<close>

type_synonym mstate = "nat \<times> (nat \<times> nat) option"

fun reps :: "(mstate \<Rightarrow> mstate list) \<Rightarrow> nat \<Rightarrow> nat \<Rightarrow> nat option \<Rightarrow> bool \<Rightarrow> mstate \<Rightarrow> mstate list" where
  "reps m 0 lo hi greedy st = (if lo = 0 then [st] else [])"
| "reps m (Suc fuel) lo hi greedy st =
     (let more = (if hi = Some 0 then []
                  else concat (map (reps m fuel (lo - 1) (map_option (\<lambda>h. h - 1) hi) greedy)
                                   (filter (\<lambda>st'. fst st < fst st') (m st))))
      in if 0 < lo then more else if greedy then more @ [st] else st # more)"

fun rmatch :: "chartab \<Rightarrow> bool \<Rightarrow> ustring \<Rightarrow> rx \<Rightarrow> mstate \<Rightarrow> mstate list" where
  "rmatch T icase s (Lit l) st =
     (if lit_at (char_eq T icase) l (drop (fst st) s) then [(fst st + length l, snd st)] else [])"
| "rmatch T icase s (Cls neg items) st =
     (if fst st < length s \<and> (list_ex (citem_ok T icase (s ! fst st)) items \<noteq> neg)
      then [(Suc (fst st), snd st)] else [])"
| "rmatch T icase s AnyChar st =
     (if fst st < length s \<and> s ! fst st \<noteq> 10 then [(Suc (fst st), snd st)] else [])"
| "rmatch T icase s Bol st = (if fst st = 0 then [st] else [])"
| "rmatch T icase s Eol st =
     (if fst st = length s \<or> (Suc (fst st) = length s \<and> s ! fst st = 10) then [st] else [])"
| "rmatch T icase s WordB st = (if word_boundary T s (fst st) then [st] else [])"
| "rmatch T icase s (Seq a b) st =
     concat (map (\<lambda>st'. rmatch T icase s b st') (rmatch T icase s a st))"
| "rmatch T icase s (Alt a b) st = rmatch T icase s a st @ rmatch T icase s b st"
| "rmatch T icase s (Rep a lo hi greedy) st =
     reps (\<lambda>st'. rmatch T icase s a st') (Suc (length s - fst st)) lo hi greedy st"
| "rmatch T icase s (Grp a) st =
     map (\<lambda>st'. (fst st', Some (fst st, fst st'))) (rmatch T icase s a st)"

text \<open>
  \<open>re.search\<close>: the leftmost start position with a match, and there the first match in
  backtracking order. The result is the start and the final state.
\<close>

type_synonym match_obj = "nat \<times> mstate"

fun first_start :: "(nat \<Rightarrow> mstate list) \<Rightarrow> nat list \<Rightarrow> match_obj option" where
  "first_start m [] = None"
| "first_start m (p # ps) = (case m p of [] \<Rightarrow> first_start m ps | st # _ \<Rightarrow> Some (p, st))"

definition re_search :: "chartab \<Rightarrow> bool \<Rightarrow> rx \<Rightarrow> ustring \<Rightarrow> match_obj option" where
  "re_search T icase r s = first_start (\<lambda>p. rmatch T icase s r (p, None)) [0..<Suc (length s)]"

definition m_start :: "match_obj \<Rightarrow> nat" where
  "m_start m = fst m"

text \<open>\<open>match.group(1)\<close>; the group is mandatory in every pattern that reads it.\<close>

definition group1 :: "ustring \<Rightarrow> match_obj \<Rightarrow> ustring" where
  "group1 s m = (case snd (snd m) of
                   Some (a, b) \<Rightarrow> take (b - a) (drop a s)
                 | None \<Rightarrow> [])"

definition str_strip :: "chartab \<Rightarrow> ustring \<Rightarrow> ustring" where
  "str_strip T s = rev (dropWhile (is_space T) (rev (dropWhile (is_space T) s)))"

text \<open>Abbreviations for building the patterns.\<close>

fun seqs :: "rx list \<Rightarrow> rx" where
  "seqs [] = Lit []"
| "seqs [r] = r"
| "seqs (r # rs) = Seq r (seqs rs)"

fun alts :: "rx list \<Rightarrow> rx" where
  "alts [] = Cls False []"
| "alts [r] = r"
| "alts (r # rs) = Alt r (alts rs)"

definition plus :: "rx \<Rightarrow> rx" where "plus r = Rep r 1 None True"
definition star :: "rx \<Rightarrow> rx" where "star r = Rep r 0 None True"
definition opt :: "rx \<Rightarrow> rx" where "opt r = Rep r 0 (Some 1) True"
definition ws :: rx where "ws = Cls False [CSpace]"
definition word_or_apos :: rx where "word_or_apos = Cls False [CWord, CChar APOS]"

text \<open>The generic loop with an early exit: the first element for which \<open>f\<close> succeeds.\<close>

fun first_some :: "('a \<Rightarrow> 'b option) \<Rightarrow> 'a list \<Rightarrow> 'b option" where
  "first_some f [] = None"
| "first_some f (x # xs) = (case f x of Some y \<Rightarrow> Some y | None \<Rightarrow> first_some f xs)"

section \<open>Town matcher\<close>

text \<open>
  The content is optional: \<open>None\<close> is Python's \<open>None\<close> or the float NaN, which is what
  pandas reads for a missing cell. \<open>not content or pd.isna(content)\<close> holds for these two
  and for the empty string, and for no other string. (The value \<open>pd.NA\<close> is not a content
  of the model: on it \<open>not content\<close> raises a TypeError.)
\<close>

definition absent :: "ustring option \<Rightarrow> bool" where
  "absent content = (case content of None \<Rightarrow> True | Some c \<Rightarrow> c = [])"

text \<open>\<open>r'\b' + re.escape(normalized_variation) + r'\b'\<close>\<close>

definition town_pattern :: "ustring \<Rightarrow> rx" where
  "town_pattern variation = seqs [WordB, Lit (normalize_apostrophes variation), WordB]"

text \<open>
  The inner loop over the variations of one town: the first variation, in list order,
  that is found in the text ends the loop, and its match is the town's.
\<close>

definition first_variation_match :: "chartab \<Rightarrow> ustring \<Rightarrow> ustring list \<Rightarrow> match_obj option" where
  "first_variation_match T normalized_content variations =
     first_some (\<lambda>variation. re_search T False (town_pattern variation) normalized_content) variations"

fun collect_matches ::
  "chartab \<Rightarrow> ustring \<Rightarrow> (ustring \<times> ustring list) list \<Rightarrow> (nat \<times> ustring) list" where
  "collect_matches T nc [] = []"
| "collect_matches T nc ((official_name, variations) # rest) =
     (case first_variation_match T nc variations of
        Some m \<Rightarrow> (m_start m, official_name) # collect_matches T nc rest
      | None \<Rightarrow> collect_matches T nc rest)"

definition extract_town :: "chartab \<Rightarrow> ustring option \<Rightarrow> gazetteer \<Rightarrow> ustring option" where
  "extract_town T content locations =
     (if absent content then None
      else
        let normalized_content = normalize_apostrophes (the content);
            lookup = build_town_lookup locations;
            matches = collect_matches T normalized_content lookup
        in case sort_key fst matches of
             [] \<Rightarrow> None
           | m # _ \<Rightarrow> Some (snd m))"

fun all_towns_loop ::
  "chartab \<Rightarrow> ustring \<Rightarrow> (ustring \<times> ustring list) list \<Rightarrow> ustring list \<Rightarrow> ustring list" where
  "all_towns_loop T nc [] found_towns = found_towns"
| "all_towns_loop T nc ((official_name, variations) # rest) found_towns =
     (if official_name \<in> set found_towns then all_towns_loop T nc rest found_towns
      else case first_variation_match T nc variations of
             Some m \<Rightarrow> all_towns_loop T nc rest (found_towns @ [official_name])
           | None \<Rightarrow> all_towns_loop T nc rest found_towns)"

definition extract_all_towns :: "chartab \<Rightarrow> ustring option \<Rightarrow> gazetteer \<Rightarrow> ustring list" where
  "extract_all_towns T content locations =
     (if absent content then []
      else all_towns_loop T (normalize_apostrophes (the content)) (build_town_lookup locations) [])"

section \<open>Road and town joint extractor\<close>

definition maltese_prefixes :: "ustring list" where
  "maltese_prefixes =
    [ustr ''Triq'', ustr ''Vjal'', ustr ''Telg'' @ [h_stroke] @ ustr ''a'', ustr ''Telgha'',
     ustr ''Sqaq'', ustr ''Misra'' @ [h_stroke], ustr ''Misrah'', ustr ''Dawret'', ustr ''Xatt'',
     ustr ''Pjazza'', ustr ''Piazza'']"

definition english_suffixes :: "ustring list" where
  "english_suffixes =
    [ustr ''Road'', ustr ''Street'', ustr ''Avenue'', ustr ''Drive'', ustr ''Lane'', ustr ''Square'',
     ustr ''Wharf'', ustr ''Seafront'', ustr ''Hill'', ustr ''Promenade'', ustr ''Gardens'',
     ustr ''Place'']"

text \<open>
  Pattern 1 (case-sensitive): the word boundary, group 1 made of the prefix and one or
  more characters other than a comma (greedy), a comma, optional white space, the town
  variation, the word boundary.
  \<^verbatim>\<open>r'\b(' + re.escape(prefix) + r'[^,]+),\s*' + town_escaped + r'\b'\<close>
\<close>

definition pattern1 :: "ustring \<Rightarrow> ustring \<Rightarrow> rx" where
  "pattern1 pre town_var =
     seqs [WordB, Grp (seqs [Lit pre, plus (Cls True [CChar 44])]),
           Lit [44], star ws, Lit town_var, WordB]"

text \<open>
  Pattern 2 (IGNORECASE): the start of the text or one of the lead-ins "in", "at",
  "along" ("the"); group 1 made of up to four tokens of word characters and apostrophes,
  each followed by white space, and the suffix; a comma, optional white space, the town
  variation, the word boundary.
  \<^verbatim>\<open>r"(?:^|in\s+|at\s+|along\s+(?:the\s+)?)((?:[\w']+\s+){0,4}" + re.escape(suffix) + r'),\s*' + town_escaped + r'\b'\<close>
\<close>

definition pattern2 :: "ustring \<Rightarrow> ustring \<Rightarrow> rx" where
  "pattern2 suf town_var =
     seqs [alts [Bol, seqs [Lit (ustr ''in''), plus ws], seqs [Lit (ustr ''at''), plus ws],
                 seqs [Lit (ustr ''along''), plus ws, opt (seqs [Lit (ustr ''the''), plus ws])]],
           Grp (seqs [Rep (seqs [plus word_or_apos, plus ws]) 0 (Some 4) True, Lit suf]),
           Lit [44], star ws, Lit town_var, WordB]"

text \<open>
  Pattern 3 (IGNORECASE): "along" ("the"), group 1 a non-greedy run of characters other
  than the newline, an optional comma, white space, "in", white space, the town
  variation, the word boundary.
  \<^verbatim>\<open>r'along\s+(?:the\s+)?(.+?),?\s+in\s+' + town_escaped + r'\b'\<close>
\<close>

definition pattern3 :: "ustring \<Rightarrow> rx" where
  "pattern3 town_var =
     seqs [Lit (ustr ''along''), plus ws, opt (seqs [Lit (ustr ''the''), plus ws]),
           Grp (Rep AnyChar 1 None False), opt (Lit [44]), plus ws, Lit (ustr ''in''), plus ws,
           Lit town_var, WordB]"

text \<open>
  The road-only patterns of the fallback, both case-sensitive. In the first, the class
  holds the word characters, white space, the apostrophe, the backslash and the hyphen,
  and its run is non-greedy.
  \<^verbatim>\<open>r'\b(' + re.escape(prefix) + r"\s+[\w\s'''\\-]+?)(?:,|\.|\s+corner)"\<close>
  \<^verbatim>\<open>r"\b((?:[\w']+\s+){1,4}" + re.escape(suffix) + r')\b'\<close>
\<close>

definition road_pattern_maltese :: "ustring \<Rightarrow> rx" where
  "road_pattern_maltese pre =
     seqs [WordB,
           Grp (seqs [Lit pre, plus ws,
                      Rep (Cls False [CWord, CSpace, CChar APOS, CChar 92, CChar 45]) 1 None False]),
           alts [Lit [44], Lit [46], seqs [plus ws, Lit (ustr ''corner'')]]]"

definition road_pattern_english :: "ustring \<Rightarrow> rx" where
  "road_pattern_english suf =
     seqs [WordB, Grp (seqs [Rep (seqs [plus word_or_apos, plus ws]) 1 (Some 4) True, Lit suf]),
           WordB]"

text \<open>
  The removal of a trailing preposition (IGNORECASE). A match of this pattern ends at
  the end of the string, so there is at most one, the leftmost, and it is cut out.
  \<^verbatim>\<open>re.sub(r'\s+(?:in|at|near|by)$', '', road, flags=re.IGNORECASE)\<close>
\<close>

definition trailing_preposition :: rx where
  "trailing_preposition =
     seqs [plus ws, alts [Lit (ustr ''in''), Lit (ustr ''at''), Lit (ustr ''near''), Lit (ustr ''by'')],
           Eol]"

definition clean_trailing_preposition :: "chartab \<Rightarrow> ustring \<Rightarrow> ustring" where
  "clean_trailing_preposition T road =
     (case re_search T True trailing_preposition road of
        None \<Rightarrow> road
      | Some m \<Rightarrow> take (m_start m) road @ drop (fst (snd m)) road)"

text \<open>
  The list of (normalized variation, official name) pairs, every variation of every
  entry of the index, sorted by the variation's length, longest first.
\<close>

definition all_town_variations :: "(ustring \<times> ustring list) list \<Rightarrow> (ustring \<times> ustring) list" where
  "all_town_variations lookup =
     sort_desc (\<lambda>x. length (fst x))
       (concat (map (\<lambda>(official_name, variations).
                       map (\<lambda>var. (normalize_apostrophes var, official_name)) variations)
                    lookup))"

text \<open>
  The body of the loop over the town variations: patterns 1, 2 and 3 in this order;
  the first match returns from the function with the road it captured and the official
  name of the variation. \<open>None\<close>: the loop goes on.
\<close>

definition cascade ::
  "chartab \<Rightarrow> ustring \<Rightarrow> ustring \<times> ustring \<Rightarrow> (ustring option \<times> ustring option) option" where
  "cascade T nc tv =
     (let town_var = fst tv; official_town = snd tv
      in case first_some (\<lambda>pre. re_search T False (pattern1 pre town_var) nc) maltese_prefixes of
           Some m \<Rightarrow>
             Some (Some (clean_trailing_preposition T (str_strip T (group1 nc m))), Some official_town)
         | None \<Rightarrow>
            (case first_some (\<lambda>suf. re_search T True (pattern2 suf town_var) nc)
                    english_suffixes of
               Some m \<Rightarrow> Some (Some (str_strip T (group1 nc m)), Some official_town)
             | None \<Rightarrow>
                (case re_search T True (pattern3 town_var) nc of
                   Some m \<Rightarrow> Some (Some (str_strip T (group1 nc m)), Some official_town)
                 | None \<Rightarrow> None)))"

text \<open>The fallback: the town from \<open>extract_town\<close>, the road from the road-only patterns.\<close>

definition fallback_road :: "chartab \<Rightarrow> ustring \<Rightarrow> ustring option" where
  "fallback_road T nc =
     (case first_some (\<lambda>pre. re_search T False (road_pattern_maltese pre) nc) maltese_prefixes of
        Some m \<Rightarrow> Some (clean_trailing_preposition T (str_strip T (group1 nc m)))
      | None \<Rightarrow>
         (case first_some (\<lambda>suf. re_search T False (road_pattern_english suf) nc)
                 english_suffixes of
            Some m \<Rightarrow> Some (str_strip T (group1 nc m))
          | None \<Rightarrow> None))"

definition extract_road_and_town ::
  "chartab \<Rightarrow> ustring option \<Rightarrow> gazetteer \<Rightarrow> ustring option \<times> ustring option" where
  "extract_road_and_town T content locations =
     (if absent content then (None, None)
      else
        let normalized_content = normalize_apostrophes (the content);
            lookup = build_town_lookup locations
        in case first_some (cascade T normalized_content) (all_town_variations lookup) of
             Some result \<Rightarrow> result
           | None \<Rightarrow>
               (fallback_road T normalized_content, extract_town T content locations))"

text \<open>
  The classification of the ASCII characters, as Python has it: a word character is a
  letter, a digit or the underscore; white space is U+0009 to U+000D and U+001C to U+0020;
  case is ignored between the letters A to Z and a to z. It is used for the concrete ASCII
  texts below; the general theorems hold for every table.
\<close>

definition ascii_lower :: "uchar \<Rightarrow> uchar" where
  "ascii_lower c = (if 65 \<le> c \<and> c \<le> 90 then c + 32 else c)"

definition ascii_tab :: chartab where
  "ascii_tab =
     \<lparr> is_word = (\<lambda>c. (48 \<le> c \<and> c \<le> 57) \<or> (65 \<le> c \<and> c \<le> 90) \<or> c = 95 \<or> (97 \<le> c \<and> c \<le> 122)),
       is_space = (\<lambda>c. (9 \<le> c \<and> c \<le> 13) \<or> (28 \<le> c \<and> c \<le> 32)),
       same_caseless = (\<lambda>a b. ascii_lower a = ascii_lower b) \<rparr>"

section \<open>A text in which nothing matches\<close>

text \<open>
  What the claims call the absence of a match, in terms of the searches the extractors
  make on the normalized content: no variation of any entry of the index is found as a
  whole word (\<open>no_town_match\<close>); none of the patterns 1, 2 and 3 matches for any town
  variation (\<open>no_joint_match\<close>); none of the road-only patterns matches
  (\<open>no_road_match\<close>).
\<close>

definition no_town_match :: "chartab \<Rightarrow> ustring \<Rightarrow> gazetteer \<Rightarrow> bool" where
  "no_town_match T c g =
     (\<forall>e \<in> set (build_town_lookup g). \<forall>v \<in> set (snd e).
        re_search T False (town_pattern v) (normalize_apostrophes c) = None)"

definition no_joint_match :: "chartab \<Rightarrow> ustring \<Rightarrow> gazetteer \<Rightarrow> bool" where
  "no_joint_match T c g =
     (\<forall>tv \<in> set (all_town_variations (build_town_lookup g)).
        (\<forall>pre \<in> set maltese_prefixes.
           re_search T False (pattern1 pre (fst tv)) (normalize_apostrophes c) = None) \<and>
        (\<forall>suf \<in> set english_suffixes.
           re_search T True (pattern2 suf (fst tv)) (normalize_apostrophes c) = None) \<and>
        re_search T True (pattern3 (fst tv)) (normalize_apostrophes c) = None)"

definition no_road_match :: "chartab \<Rightarrow> ustring \<Rightarrow> bool" where
  "no_road_match T c =
     ((\<forall>pre \<in> set maltese_prefixes.
         re_search T False (road_pattern_maltese pre) (normalize_apostrophes c) = None) \<and>
      (\<forall>suf \<in> set english_suffixes.
         re_search T False (road_pattern_english suf) (normalize_apostrophes c) = None))"

section \<open>Auxiliary definitions for the proofs\<close>

text \<open>
  A list of single-character replacements, applied in order to one character: what the
  normalizers do to each character of a string.
\<close>

definition char_subst :: "(uchar \<times> uchar) list \<Rightarrow> uchar \<Rightarrow> uchar" where
  "char_subst ps c = fold (\<lambda>(a, b) x. if x = a then b else x) ps c"

text \<open>The tables of the two normalizers as pairs of characters.\<close>

definition ascii_pairs :: "(uchar \<times> uchar) list" where
  "ascii_pairs = [(294, 72), (295, 104), (288, 71), (289, 103), (379, 90), (380, 122),
     (266, 67), (267, 99), (192, 65), (224, 97), (200, 69), (232, 101), (204, 73), (236, 105),
     (210, 79), (242, 111), (217, 85), (249, 117), (8216, 39), (8217, 39)]"

definition apostrophe_pairs :: "(uchar \<times> uchar) list" where
  "apostrophe_pairs = [(8216, 39), (8217, 39), (96, 39), (180, 39), (8242, 39)]"

text \<open>
  \<open>occurs eq l s\<close>: the literal \<open>l\<close> occurs somewhere in \<open>s\<close>, characters compared by
  \<open>eq\<close>. \<open>needs l r\<close>: every match of the pattern \<open>r\<close> goes through the literal \<open>l\<close>.
  A pattern that needs a literal which does not occur in the text has no match there.
\<close>

fun occurs :: "(uchar \<Rightarrow> uchar \<Rightarrow> bool) \<Rightarrow> ustring \<Rightarrow> ustring \<Rightarrow> bool" where
  "occurs eq l [] = lit_at eq l []"
| "occurs eq l (c # cs) = (lit_at eq l (c # cs) \<or> occurs eq l cs)"

fun needs :: "ustring \<Rightarrow> rx \<Rightarrow> bool" where
  "needs l (Lit l') = (l = l')"
| "needs l (Seq a b) = (needs l a \<or> needs l b)"
| "needs l (Alt a b) = (needs l a \<and> needs l b)"
| "needs l (Rep a lo hi greedy) = (0 < lo \<and> needs l a)"
| "needs l (Grp a) = needs l a"
| "needs l (Cls neg items) = False"
| "needs l AnyChar = False"
| "needs l Bol = False"
| "needs l Eol = False"
| "needs l WordB = False"

text \<open>The texts of the scenarios.\<close>

definition msida_report :: ustring where
  "msida_report = ustr ''Police are investigating an incident on Msida Road, Msida.''"

definition triq_report :: ustring where
  "triq_report = ustr ''Triq Rue, Msida''"

definition plain_report :: ustring where
  "plain_report = ustr ''No location mentioned here.''"

section \<open>Properties\<close>

subsection \<open>The quantifier never runs out of fuel\<close>

text \<open>
  The matcher stays inside the string, and each iteration of a quantifier moves forward,
  so with any fuel above the number of characters left the result is the same.
\<close>

lemma lit_at_length: "lit_at eq l s \<Longrightarrow> length l \<le> length s"
  by (induction eq l s rule: lit_at.induct) auto

lemma reps_bound:
  assumes m: "\<And>a b. fst a \<le> n \<Longrightarrow> b \<in> set (m a) \<Longrightarrow> fst b \<le> n"
  shows "st' \<in> set (reps m fuel lo hi greedy st) \<Longrightarrow> fst st \<le> n \<Longrightarrow> fst st' \<le> n"
proof (induction fuel arbitrary: lo hi st)
  case 0
  then show ?case by (auto split: if_splits)
next
  case (Suc fuel)
  let ?more = "concat (map (reps m fuel (lo - 1) (map_option (\<lambda>h. h - 1) hi) greedy)
                          (filter (\<lambda>x. fst st < fst x) (m st)))"
  from Suc.prems(1) have "st' = st \<or> st' \<in> set ?more"
    by (auto simp: Let_def split: if_splits)
  then show ?case
  proof
    assume "st' = st"
    with Suc.prems(2) show ?thesis by simp
  next
    assume "st' \<in> set ?more"
    then obtain st1 where st1: "st1 \<in> set (m st)"
      and in1: "st' \<in> set (reps m fuel (lo - 1) (map_option (\<lambda>h. h - 1) hi) greedy st1)"
      by auto
    from m [OF Suc.prems(2) st1] have "fst st1 \<le> n" .
    with in1 show ?thesis by (rule Suc.IH)
  qed
qed

lemma rmatch_bound:
  "st' \<in> set (rmatch T icase s r st) \<Longrightarrow> fst st \<le> length s \<Longrightarrow> fst st' \<le> length s"
proof (induction r arbitrary: st st')
  case (Lit l)
  from Lit.prems(1) have lit: "lit_at (char_eq T icase) l (drop (fst st) s)"
    and st': "fst st' = fst st + length l"
    by (auto split: if_splits)
  from lit_at_length [OF lit] Lit.prems(2) show ?case by (simp add: st')
next
  case (Seq a b)
  from Seq.prems(1) obtain st1 where
    st1: "st1 \<in> set (rmatch T icase s a st)" "st' \<in> set (rmatch T icase s b st1)"
    by auto
  from st1(1) Seq.prems(2) have "fst st1 \<le> length s" by (rule Seq.IH(1))
  with st1(2) show ?case by (rule Seq.IH(2))
next
  case (Alt a b)
  from Alt.prems(1) have "st' \<in> set (rmatch T icase s a st) \<or> st' \<in> set (rmatch T icase s b st)"
    by simp
  then show ?case using Alt.IH Alt.prems(2) by blast
next
  case (Rep a lo hi greedy)
  from Rep.prems(1)
  have "st' \<in> set (reps (\<lambda>x. rmatch T icase s a x) (Suc (length s - fst st)) lo hi greedy st)"
    by simp
  then show ?case
    using Rep.prems(2) by (rule reps_bound [rotated]) (rule Rep.IH)
next
  case (Grp a)
  from Grp.prems(1) obtain st1 where "st1 \<in> set (rmatch T icase s a st)" "fst st' = fst st1"
    by auto
  with Grp.IH Grp.prems(2) show ?case by metis
qed (auto split: if_splits)

lemma reps_fuel:
  assumes m: "\<And>a b. fst a \<le> n \<Longrightarrow> b \<in> set (m a) \<Longrightarrow> fst b \<le> n"
  shows "fst st \<le> n \<Longrightarrow> n - fst st < f1 \<Longrightarrow> n - fst st < f2 \<Longrightarrow>
         reps m f1 lo hi greedy st = reps m f2 lo hi greedy st"
proof (induction f1 arbitrary: f2 lo hi st)
  case 0
  then show ?case by simp
next
  case (Suc f1)
  from Suc.prems(3) obtain f2' where f2: "f2 = Suc f2'" by (cases f2) auto
  have "reps m f1 lo' hi' greedy st1 = reps m f2' lo' hi' greedy st1"
    if "st1 \<in> set (filter (\<lambda>x. fst st < fst x) (m st))" for st1 lo' hi'
  proof -
    from that have in1: "st1 \<in> set (m st)" and gt: "fst st < fst st1" by simp_all
    from m [OF Suc.prems(1) in1] have le: "fst st1 \<le> n" .
    from gt le Suc.prems(2) have "n - fst st1 < f1" by arith
    moreover from gt le Suc.prems(3) have "n - fst st1 < f2'" unfolding f2 by arith
    ultimately show ?thesis using le by (intro Suc.IH)
  qed
  then have eq: "concat (map (reps m f1 lo' hi' greedy) (filter (\<lambda>x. fst st < fst x) (m st)))
           = concat (map (reps m f2' lo' hi' greedy) (filter (\<lambda>x. fst st < fst x) (m st)))"
    for lo' hi'
    by (intro arg_cong [where f = concat] map_cong refl)
  show ?case by (simp only: f2 reps.simps Let_def eq)
qed

lemma rep_fuel_enough:
  assumes "fst st \<le> length s" and "length s - fst st < fuel"
  shows "reps (\<lambda>x. rmatch T icase s a x) fuel lo hi greedy st = rmatch T icase s (Rep a lo hi greedy) st"
proof -
  have "reps (\<lambda>x. rmatch T icase s a x) fuel lo hi greedy st
      = reps (\<lambda>x. rmatch T icase s a x) (Suc (length s - fst st)) lo hi greedy st"
    using assms by (intro reps_fuel [where n = "length s"]) (auto intro: rmatch_bound)
  then show ?thesis by simp
qed

subsection \<open>The normalizers and the variant generator\<close>

lemma str_replace_single:
  "str_replace [a] [b] s = map (\<lambda>c. if c = a then b else c) s"
  by (induction s) auto

lemma fold_replace_single:
  "fold (\<lambda>(old, new) r. str_replace old new r) (map (\<lambda>(a, b). ([a], [b])) ps) s
     = map (char_subst ps) s"
proof (induction ps arbitrary: s)
  case Nil
  show ?case by (simp add: char_subst_def)
next
  case (Cons p ps)
  obtain a b where p: "p = (a, b)" by (cases p)
  show ?case
    by (simp add: p Cons.IH str_replace_single char_subst_def)
qed

lemma char_subst_not_key:
  "c \<notin> fst ` set ps \<Longrightarrow> char_subst ps c = c"
  by (induction ps) (auto simp: char_subst_def)

lemma char_subst_Cons:
  "char_subst ((a, b) # ps) c = char_subst ps (if c = a then b else c)"
  by (simp add: char_subst_def)

lemma char_subst_range:
  "char_subst ps c \<in> insert c (snd ` set ps)"
proof (induction ps arbitrary: c)
  case Nil
  show ?case by (simp add: char_subst_def)
next
  case (Cons p ps)
  obtain a b where p: "p = (a, b)" by (cases p)
  have step: "char_subst (p # ps) c = char_subst ps (if c = a then b else c)"
    by (simp add: p char_subst_Cons)
  have "char_subst ps (if c = a then b else c) \<in> insert c (insert b (snd ` set ps))"
    using Cons.IH [of b] Cons.IH [of c] by (cases "c = a") auto
  then show ?case
    unfolding step by (simp add: p)
qed

lemma char_subst_no_key:
  assumes "snd ` set ps \<inter> K = {}" and "fst ` set ps \<subseteq> K"
  shows "char_subst ps c \<notin> fst ` set ps"
  using assms
proof (induction ps arbitrary: c)
  case Nil
  show ?case by simp
next
  case (Cons p ps)
  obtain a b where p: "p = (a, b)" by (cases p)
  from Cons.prems have vals: "snd ` set ps \<inter> K = {}" and keys: "fst ` set ps \<subseteq> K"
    and a: "a \<in> K" and b: "b \<notin> K"
    by (auto simp: p)
  let ?x = "if c = a then b else c"
  have rest: "char_subst ps ?x \<notin> fst ` set ps"
    by (rule Cons.IH [OF vals keys])
  have "char_subst ps ?x \<noteq> a"
  proof (cases "c = a")
    case True
    from b keys have "b \<notin> fst ` set ps" by blast
    then have "char_subst ps b = b" by (rule char_subst_not_key)
    with True a b show ?thesis by auto
  next
    case False
    from char_subst_range [of ps c] have "char_subst ps c = c \<or> char_subst ps c \<in> snd ` set ps"
      by blast
    with False vals a show ?thesis by auto
  qed
  with rest show ?case by (simp add: p char_subst_Cons)
qed

lemma char_subst_idem:
  assumes "snd ` set ps \<inter> fst ` set ps = {}"
  shows "char_subst ps (char_subst ps c) = char_subst ps c"
  by (rule char_subst_not_key) (rule char_subst_no_key [OF assms subset_refl])

lemma to_ascii_map: "to_ascii s = map (char_subst ascii_pairs) s"
proof -
  have eq: "create_ascii_mapping = map (\<lambda>(a, b). ([a], [b])) ascii_pairs"
    by (simp add: create_ascii_mapping_def ascii_pairs_def ustr_def)
  show ?thesis
    by (simp only: to_ascii_def eq fold_replace_single)
qed

lemma normalize_apostrophes_map: "normalize_apostrophes s = map (char_subst apostrophe_pairs) s"
proof -
  have eq: "fold (\<lambda>apos t. str_replace apos [39] t) apostrophes s
        = fold (\<lambda>(old, new) r. str_replace old new r) (map (\<lambda>(a, b). ([a], [b])) apostrophe_pairs) s"
    by (simp add: apostrophes_def apostrophe_pairs_def)
  show ?thesis
    by (simp only: normalize_apostrophes_def eq fold_replace_single)
qed

text \<open>
  Claim C7. Both normalizers are idempotent: for every string \<open>x\<close>, folding to ASCII twice
  is folding once, and normalizing the apostrophes twice is normalizing once.
\<close>

theorem normalizers_idempotent:
  "to_ascii (to_ascii x) = to_ascii x \<and>
   normalize_apostrophes (normalize_apostrophes x) = normalize_apostrophes x"
proof
  have "snd ` set ascii_pairs \<inter> fst ` set ascii_pairs = {}"
    by (simp add: ascii_pairs_def)
  then show "to_ascii (to_ascii x) = to_ascii x"
    by (simp add: to_ascii_map char_subst_idem)
next
  have "snd ` set apostrophe_pairs \<inter> fst ` set apostrophe_pairs = {}"
    by (simp add: apostrophe_pairs_def)
  then show "normalize_apostrophes (normalize_apostrophes x) = normalize_apostrophes x"
    by (simp add: normalize_apostrophes_map char_subst_idem)
qed

lemma strip_first_prefix_keeps: "set vs \<subseteq> set (strip_first_prefix ps town vs)"
  by (induction ps) (auto simp: Let_def)

text \<open>
  Claim C4. For every town name, the list of variations holds the name itself, and so is
  never empty.
\<close>

theorem create_town_variations_contains_town:
  "town \<in> set (create_town_variations town) \<and> create_town_variations town \<noteq> []"
  using strip_first_prefix_keeps [of "[town]" prefixes town]
  by (auto simp: create_town_variations_def)

lemma strip_first_prefix_find:
  "strip_first_prefix ps town vs =
     (case find (\<lambda>p. prefix p town) ps of
        None \<Rightarrow> vs
      | Some p \<Rightarrow> if drop (length p) town \<noteq> [] \<and> drop (length p) town \<notin> set vs
                  then vs @ [drop (length p) town] else vs)"
  by (induction ps) (auto simp: Let_def)

lemma prefixes_nonempty: "p \<in> set prefixes \<Longrightarrow> p \<noteq> []"
  by (auto simp: prefixes_def ustr_def)

text \<open>
  Claim C5, amended. If \<open>p\<close> is the first prefix of the list that the town name starts
  with, the variations are exactly the name and the name without \<open>p\<close>, in this order,
  when something is left of the name, and the name alone when the name is \<open>p\<close> itself.
  So no remainder of another prefix and no remainder of two prefixes is ever added.
\<close>

theorem create_town_variations_first_prefix:
  assumes "find (\<lambda>p. prefix p town) prefixes = Some p"
  shows "create_town_variations town =
           (if town = p then [town] else [town, drop (length p) town])"
proof -
  from assms have pre: "prefix p town" and mem: "p \<in> set prefixes"
    by (auto simp: find_Some_iff)
  from mem have ne: "p \<noteq> []" by (rule prefixes_nonempty)
  from pre obtain r where town: "town = p @ r" by (auto simp: prefix_def)
  have neq: "drop (length p) town \<noteq> town"
    using ne town by auto
  have emp: "(length town \<le> length p) = (town = p)"
    using town by auto
  show ?thesis
    by (simp add: create_town_variations_def strip_first_prefix_find assms neq emp)
qed

lemma create_town_variations_no_prefix:
  assumes "find (\<lambda>p. prefix p town) prefixes = None"
  shows "create_town_variations town = [town]"
  by (simp add: create_town_variations_def strip_first_prefix_find assms)

text \<open>
  Claim C5 as stated fails for a town name that is a prefix and nothing more: the
  prefix "Il-" is the first one the name "Il-" starts with, and the name without it, the
  empty string, is not among the variations.
\<close>

theorem whole_name_prefix_counterexample:
  "find (\<lambda>p. prefix p (ustr ''Il-'')) prefixes = Some (ustr ''Il-'') \<and>
   drop (length (ustr ''Il-'')) (ustr ''Il-'') \<notin> set (create_town_variations (ustr ''Il-''))"
  by (simp add: prefixes_def ustr_def create_town_variations_def)

text \<open>The amended claim C5 at "Il-Birgu".\<close>

theorem create_town_variations_first_prefix_witness:
  "find (\<lambda>p. prefix p (ustr ''Il-Birgu'')) prefixes = Some (ustr ''Il-'') \<and>
   create_town_variations (ustr ''Il-Birgu'') = [ustr ''Il-Birgu'', ustr ''Birgu'']"
proof -
  have h: "find (\<lambda>p. prefix p (ustr ''Il-Birgu'')) prefixes = Some (ustr ''Il-'')"
    by (simp add: prefixes_def ustr_def)
  from create_town_variations_first_prefix [OF h] h show ?thesis
    by (simp add: ustr_def)
qed

subsection \<open>The order of the town lookup index\<close>

lemma max_len_Max: "vs \<noteq> [] \<Longrightarrow> max_len vs = Max (length ` set vs)"
proof (induction vs)
  case Nil
  then show ?case by simp
next
  case (Cons v vs)
  show ?case
  proof (cases "vs = []")
    case True
    then show ?thesis by (simp add: max_len_def)
  next
    case False
    with Cons.IH have "max_len vs = Max (length ` set vs)" by simp
    with False show ?thesis by (simp add: max_len_def)
  qed
qed

lemma town_entry_fst: "fst (town_entry town) = town"
  by (simp add: town_entry_def Let_def)

lemma town_entry_has_town: "town \<in> set (snd (town_entry town))"
  using strip_first_prefix_keeps [of "[town]" prefixes town]
  by (auto simp: town_entry_def Let_def create_town_variations_def split: option.splits)

lemma set_sort_desc: "set (sort_desc key xs) = set xs"
  by (simp add: sort_desc_def)

lemma length_sort_desc: "length (sort_desc key xs) = length xs"
  by (simp add: sort_desc_def)

lemma sorted_sort_desc: "sorted (map (\<lambda>x. - int (key x)) (sort_desc key xs))"
  by (simp add: sort_desc_def)

lemma set_build_town_lookup: "set (build_town_lookup g) = town_entry ` set g"
  by (simp add: build_town_lookup_def set_sort_desc)

lemma lookup_entry_nonempty: "e \<in> set (build_town_lookup g) \<Longrightarrow> snd e \<noteq> []"
proof -
  assume "e \<in> set (build_town_lookup g)"
  then obtain t where "e = town_entry t" by (auto simp: set_build_town_lookup)
  with town_entry_has_town [of t] show ?thesis by auto
qed

text \<open>
  Claim C6. In the index built from any gazetteer, of two adjacent entries the earlier
  one's longest variant is at least as long as the later one's.
\<close>

theorem lookup_sorted_by_longest_variant:
  assumes "Suc i < length (build_town_lookup g)"
  shows "Max (length ` set (snd (build_town_lookup g ! Suc i)))
           \<le> Max (length ` set (snd (build_town_lookup g ! i)))"
proof -
  let ?L = "build_town_lookup g"
  let ?k = "\<lambda>x. - int (max_len (snd x))"
  have "sorted (map ?k ?L)"
    unfolding build_town_lookup_def by (rule sorted_sort_desc)
  moreover have "i \<le> Suc i" by simp
  moreover from assms have "Suc i < length (map ?k ?L)" by simp
  ultimately have "map ?k ?L ! i \<le> map ?k ?L ! Suc i"
    by (rule sorted_nth_mono)
  with assms have le: "max_len (snd (?L ! Suc i)) \<le> max_len (snd (?L ! i))"
    by simp
  from assms have "?L ! i \<in> set ?L" and "?L ! Suc i \<in> set ?L"
    by simp_all
  then have "snd (?L ! i) \<noteq> []" and "snd (?L ! Suc i) \<noteq> []"
    by (simp_all add: lookup_entry_nonempty)
  with le show ?thesis
    by (simp add: max_len_Max)
qed

subsection \<open>All the towns of a text\<close>

lemma first_some_SomeD: "first_some f xs = Some y \<Longrightarrow> \<exists>x \<in> set xs. f x = Some y"
  by (induction xs) (auto split: option.splits)

lemma all_towns_loop_shape:
  "\<exists>ys. all_towns_loop T nc lk found = found @ ys \<and> subseq ys (map fst lk) \<and>
        (distinct found \<longrightarrow> distinct (found @ ys))"
proof (induction lk arbitrary: found)
  case Nil
  show ?case by simp
next
  case (Cons e lk)
  obtain official_name variations where e: "e = (official_name, variations)" by (cases e)
  show ?case
  proof (cases "official_name \<notin> set found \<and> first_variation_match T nc variations \<noteq> None")
    case True
    from Cons.IH [of "found @ [official_name]"] obtain ys where
      ys: "all_towns_loop T nc lk (found @ [official_name]) = (found @ [official_name]) @ ys"
      "subseq ys (map fst lk)"
      "distinct (found @ [official_name]) \<longrightarrow> distinct ((found @ [official_name]) @ ys)"
      by blast
    have "all_towns_loop T nc (e # lk) found = found @ (official_name # ys)"
      using True ys(1) by (auto simp: e)
    moreover have "subseq (official_name # ys) (map fst (e # lk))"
      using ys(2) by (simp add: e)
    moreover have "distinct found \<longrightarrow> distinct (found @ (official_name # ys))"
      using True ys(3) by auto
    ultimately show ?thesis by blast
  next
    case False
    from Cons.IH [of found] obtain ys where
      ys: "all_towns_loop T nc lk found = found @ ys" "subseq ys (map fst lk)"
      "distinct found \<longrightarrow> distinct (found @ ys)"
      by blast
    have "all_towns_loop T nc (e # lk) found = found @ ys"
      using False ys(1) by (auto simp: e split: option.splits)
    moreover have "subseq ys (map fst (e # lk))"
      using ys(2) by (auto simp: e)
    ultimately show ?thesis using ys(3) by blast
  qed
qed

text \<open>
  Claim C8. For every content and gazetteer the list \<open>extract_all_towns\<close> returns has no
  duplicates, and it is a subsequence of the official names of the index: the towns come
  in index order, whatever their order in the text.
\<close>

theorem extract_all_towns_distinct_in_index_order:
  "distinct (extract_all_towns T content g) \<and>
   subseq (extract_all_towns T content g) (map fst (build_town_lookup g))"
proof (cases "absent content")
  case True
  then show ?thesis by (simp add: extract_all_towns_def)
next
  case False
  from all_towns_loop_shape [of T "normalize_apostrophes (the content)" "build_town_lookup g" "[]"]
  show ?thesis using False by (auto simp: extract_all_towns_def)
qed

subsection \<open>A pattern does not match without its literals\<close>

lemma occurs_drop: "lit_at eq l (drop p s) \<Longrightarrow> occurs eq l s"
proof (induction s arbitrary: p)
  case Nil
  then show ?case by simp
next
  case (Cons c cs)
  then show ?case by (cases p) auto
qed

lemma reps_runs_body:
  assumes "0 < lo" and "st' \<in> set (reps m fuel lo hi greedy st)"
  shows "\<exists>b. b \<in> set (m st)"
proof (cases fuel)
  case 0
  with assms show ?thesis by simp
next
  case (Suc f)
  with assms show ?thesis by (auto simp: Let_def split: if_splits)
qed

lemma rmatch_needs:
  "needs l r \<Longrightarrow> st' \<in> set (rmatch T icase s r st) \<Longrightarrow> occurs (char_eq T icase) l s"
proof (induction r arbitrary: st st')
  case (Lit l')
  then show ?case by (auto split: if_splits intro: occurs_drop)
next
  case (Seq a b)
  from Seq.prems(2) obtain st1 where
    st1: "st1 \<in> set (rmatch T icase s a st)" "st' \<in> set (rmatch T icase s b st1)"
    by auto
  from Seq.prems(1) have "needs l a \<or> needs l b" by simp
  then show ?case
  proof
    assume "needs l a"
    then show ?thesis using st1(1) by (rule Seq.IH(1))
  next
    assume "needs l b"
    then show ?thesis using st1(2) by (rule Seq.IH(2))
  qed
next
  case (Alt a b)
  from Alt.prems(1) have na: "needs l a" and nb: "needs l b" by simp_all
  from Alt.prems(2) have "st' \<in> set (rmatch T icase s a st) \<or> st' \<in> set (rmatch T icase s b st)"
    by simp
  then show ?case
    using Alt.IH(1) [OF na] Alt.IH(2) [OF nb] by blast
next
  case (Rep a lo hi greedy)
  from Rep.prems have lo: "0 < lo" and na: "needs l a" by simp_all
  from Rep.prems(2) have "st' \<in> set (reps (\<lambda>x. rmatch T icase s a x) (Suc (length s - fst st)) lo hi greedy st)"
    by simp
  from reps_runs_body [OF lo this] obtain b where "b \<in> set (rmatch T icase s a st)" by blast
  with na show ?case by (rule Rep.IH)
next
  case (Grp a)
  from Grp.prems(2) obtain st1 where "st1 \<in> set (rmatch T icase s a st)" by auto
  with Grp.prems(1) show ?case using Grp.IH by simp
qed simp_all

lemma first_start_SomeD: "first_start m ps = Some (p, st) \<Longrightarrow> st \<in> set (m p)"
  by (induction ps) (auto split: list.splits)

lemma re_search_needs:
  assumes "needs l r" and "\<not> occurs (char_eq T icase) l s"
  shows "re_search T icase r s = None"
proof (cases "re_search T icase r s")
  case None
  then show ?thesis .
next
  case (Some m)
  obtain p st where m: "m = (p, st)" by (cases m)
  from Some have "st \<in> set (rmatch T icase s r (p, None))"
    unfolding re_search_def m by (rule first_start_SomeD)
  with assms(1) have "occurs (char_eq T icase) l s" by (rule rmatch_needs)
  with assms(2) show ?thesis by simp
qed

lemma first_some_None: "(\<And>x. x \<in> set xs \<Longrightarrow> f x = None) \<Longrightarrow> first_some f xs = None"
  by (induction xs) auto

subsection \<open>The scenario of the road in Msida\<close>

text \<open>The equations that evaluate the model on a concrete input.\<close>

lemmas norm_defs = normalize_apostrophes_def apostrophes_def

lemmas lookup_defs =
  build_town_lookup_def sort_desc_def town_entry_def create_town_variations_def prefixes_def
  get_english_aliases_def to_ascii_def create_ascii_mapping_def max_len_def Let_def

lemma needs_pattern1_town: "needs tv (pattern1 pre tv)"
  and needs_pattern2_town: "needs tv (pattern2 suf tv)"
  and needs_pattern3_town: "needs tv (pattern3 tv)"
  and needs_pattern1_prefix: "needs pre (pattern1 pre tv)"
  and needs_pattern2_suffix: "needs suf (pattern2 suf tv)"
  and needs_pattern3_along: "needs (ustr ''along'') (pattern3 tv)"
  and needs_road_maltese: "needs pre (road_pattern_maltese pre)"
  and needs_road_english: "needs suf (road_pattern_english suf)"
  and needs_town_pattern: "needs (normalize_apostrophes v) (town_pattern v)"
  by (simp_all add: pattern1_def pattern2_def pattern3_def road_pattern_maltese_def
      road_pattern_english_def town_pattern_def plus_def)

lemma cascade_no_town:
  assumes "\<not> occurs (char_eq T False) tv nc" and "\<not> occurs (char_eq T True) tv nc"
  shows "cascade T nc (tv, official) = None"
proof -
  have "first_some (\<lambda>pre. re_search T False (pattern1 pre tv) nc) maltese_prefixes = None"
    by (rule first_some_None) (rule re_search_needs [OF needs_pattern1_town assms(1)])
  moreover have "first_some (\<lambda>suf. re_search T True (pattern2 suf tv) nc) english_suffixes = None"
    by (rule first_some_None) (rule re_search_needs [OF needs_pattern2_town assms(2)])
  moreover have "re_search T True (pattern3 tv) nc = None"
    by (rule re_search_needs [OF needs_pattern3_town assms(2)])
  ultimately show ?thesis by (simp add: cascade_def)
qed

lemma msida_report_normal: "normalize_apostrophes msida_report = msida_report"
  by (simp add: norm_defs msida_report_def ustr_def)

lemma imsida_lookup:
  "build_town_lookup [ustr ''L-Imsida''] =
     [(ustr ''L-Imsida'', [ustr ''L-Imsida'', ustr ''Imsida'', ustr ''Msida''])]"
  by (simp add: lookup_defs ustr_def)

lemma imsida_variations:
  "all_town_variations [(ustr ''L-Imsida'', [ustr ''L-Imsida'', ustr ''Imsida'', ustr ''Msida''])] =
     [(ustr ''L-Imsida'', ustr ''L-Imsida''), (ustr ''Imsida'', ustr ''L-Imsida''),
      (ustr ''Msida'', ustr ''L-Imsida'')]"
  by (simp add: all_town_variations_def sort_desc_def norm_defs ustr_def)

lemma msida_report_no_l_imsida:
  "\<not> occurs (char_eq ascii_tab icase) (ustr ''L-Imsida'') msida_report"
  by (cases icase) (simp_all add: msida_report_def ustr_def char_eq_def ascii_tab_def ascii_lower_def)

lemma msida_report_no_imsida:
  "\<not> occurs (char_eq ascii_tab icase) (ustr ''Imsida'') msida_report"
  by (cases icase) (simp_all add: msida_report_def ustr_def char_eq_def ascii_tab_def ascii_lower_def)

lemma msida_report_no_maltese_prefix:
  "\<forall>pre \<in> set maltese_prefixes. \<not> occurs (char_eq ascii_tab False) pre msida_report"
  by (simp add: maltese_prefixes_def msida_report_def ustr_def char_eq_def)

lemma msida_report_no_other_suffix:
  "\<forall>suf \<in> set (tl english_suffixes). \<not> occurs (char_eq ascii_tab True) suf msida_report"
  by (simp add: english_suffixes_def msida_report_def ustr_def char_eq_def ascii_tab_def ascii_lower_def)

lemma msida_report_no_along:
  "\<not> occurs (char_eq ascii_tab True) (ustr ''along'') msida_report"
  by (simp add: msida_report_def ustr_def char_eq_def ascii_tab_def ascii_lower_def)

lemma ascii_tab_simps:
  "is_word ascii_tab c = ((48 \<le> c \<and> c \<le> 57) \<or> (65 \<le> c \<and> c \<le> 90) \<or> c = 95 \<or> (97 \<le> c \<and> c \<le> 122))"
  "is_space ascii_tab c = ((9 \<le> c \<and> c \<le> 13) \<or> (28 \<le> c \<and> c \<le> 32))"
  "same_caseless ascii_tab a b = (ascii_lower a = ascii_lower b)"
  by (simp_all add: ascii_tab_def)

lemmas search_defs =
  re_search_def word_boundary_def char_eq_def ascii_tab_simps ascii_lower_def
  plus_def star_def opt_def ws_def word_or_apos_def Let_def

lemmas town_defs =
  extract_town_def extract_all_towns_def absent_def first_variation_match_def
  town_pattern_def m_start_def

lemma msida_road_pattern2:
  "re_search ascii_tab True (pattern2 (ustr ''Road'') (ustr ''Msida'')) msida_report = None"
  by (simp add: search_defs pattern2_def msida_report_def ustr_def)

lemma msida_cascade_none:
  "cascade ascii_tab msida_report (ustr ''Msida'', official) = None"
proof -
  have "first_some (\<lambda>pre. re_search ascii_tab False (pattern1 pre (ustr ''Msida'')) msida_report)
          maltese_prefixes = None"
    using msida_report_no_maltese_prefix
    by (intro first_some_None re_search_needs [OF needs_pattern1_prefix]) blast
  moreover have "\<forall>suf \<in> set (tl english_suffixes).
      re_search ascii_tab True (pattern2 suf (ustr ''Msida'')) msida_report = None"
    using msida_report_no_other_suffix
    by (intro ballI re_search_needs [OF needs_pattern2_suffix]) blast
  then have "first_some (\<lambda>suf. re_search ascii_tab True (pattern2 suf (ustr ''Msida'')) msida_report)
          english_suffixes = None"
    using msida_road_pattern2 by (simp add: english_suffixes_def)
  moreover have "re_search ascii_tab True (pattern3 (ustr ''Msida'')) msida_report = None"
    by (rule re_search_needs [OF needs_pattern3_along msida_report_no_along])
  ultimately show ?thesis by (simp add: cascade_def)
qed

lemma msida_report_road:
  "re_search ascii_tab False (road_pattern_english (ustr ''Road'')) msida_report
     = Some (25, 50, Some (25, 50))"
  by (simp add: search_defs road_pattern_english_def msida_report_def ustr_def)

lemma msida_fallback_road:
  "fallback_road ascii_tab msida_report = Some (ustr ''an incident on Msida Road'')"
proof -
  have "first_some (\<lambda>pre. re_search ascii_tab False (road_pattern_maltese pre) msida_report)
          maltese_prefixes = None"
    using msida_report_no_maltese_prefix
    by (intro first_some_None re_search_needs [OF needs_road_maltese]) blast
  moreover have "str_strip ascii_tab (group1 msida_report (25, 50, Some (25, 50)))
      = ustr ''an incident on Msida Road''"
    by (simp add: str_strip_def group1_def msida_report_def ustr_def ascii_tab_simps)
  ultimately show ?thesis
    using msida_report_road by (simp add: fallback_road_def english_suffixes_def)
qed

lemma msida_report_town:
  "re_search ascii_tab False (town_pattern (ustr ''Msida'')) msida_report = Some (40, 45, None)"
  by (simp add: search_defs town_pattern_def norm_defs msida_report_def ustr_def)

lemma msida_extract_town:
  "extract_town ascii_tab (Some msida_report) [ustr ''L-Imsida''] = Some (ustr ''L-Imsida'')"
proof -
  have n1: "normalize_apostrophes (ustr ''L-Imsida'') = ustr ''L-Imsida''"
    and n2: "normalize_apostrophes (ustr ''Imsida'') = ustr ''Imsida''"
    by (simp_all add: norm_defs ustr_def)
  have "re_search ascii_tab False (town_pattern (ustr ''L-Imsida'')) msida_report = None"
    using re_search_needs [OF needs_town_pattern, of ascii_tab False "ustr ''L-Imsida''" msida_report]
      msida_report_no_l_imsida [of False] by (simp add: n1)
  moreover have "re_search ascii_tab False (town_pattern (ustr ''Imsida'')) msida_report = None"
    using re_search_needs [OF needs_town_pattern, of ascii_tab False "ustr ''Imsida''" msida_report]
      msida_report_no_imsida [of False] by (simp add: n2)
  ultimately have "first_variation_match ascii_tab msida_report
      [ustr ''L-Imsida'', ustr ''Imsida'', ustr ''Msida''] = Some (40, 45, None)"
    using msida_report_town by (simp add: first_variation_match_def)
  moreover have "msida_report \<noteq> []"
    by (simp add: msida_report_def ustr_def)
  ultimately show ?thesis
    by (simp add: extract_town_def absent_def msida_report_normal imsida_lookup m_start_def)
qed

lemma msida_scenario:
  "extract_road_and_town ascii_tab (Some msida_report) [ustr ''L-Imsida'']
     = (Some (ustr ''an incident on Msida Road''), Some (ustr ''L-Imsida''))"
proof -
  have "first_some (cascade ascii_tab msida_report)
          [(ustr ''L-Imsida'', ustr ''L-Imsida''), (ustr ''Imsida'', ustr ''L-Imsida''),
           (ustr ''Msida'', ustr ''L-Imsida'')] = None"
    by (simp add: cascade_no_town msida_report_no_l_imsida msida_report_no_imsida
        msida_cascade_none)
  moreover have "msida_report \<noteq> []"
    by (simp add: msida_report_def ustr_def)
  ultimately show ?thesis
    by (simp add: extract_road_and_town_def absent_def msida_report_normal imsida_lookup
        imsida_variations msida_fallback_road msida_extract_town)
qed

text \<open>
  Claim C2 as stated fails: for the text of the scenario and the gazetteer of "L-Imsida"
  the result is not the pair of the road "Msida Road" and the town "L-Imsida".
\<close>

theorem msida_scenario_road_differs:
  "extract_road_and_town ascii_tab
     (Some (ustr ''Police are investigating an incident on Msida Road, Msida.''))
     [ustr ''L-Imsida'']
   \<noteq> (Some (ustr ''Msida Road''), Some (ustr ''L-Imsida''))"
  using msida_scenario by (simp add: msida_report_def ustr_def)

text \<open>
  Claim C2, amended. For the content "Police are investigating an incident on Msida
  Road, Msida." and the gazetteer of "L-Imsida", whose alias is "Msida",
  \<open>extract_road_and_town\<close> returns the town "L-Imsida" and the road "an incident on Msida
  Road": no lead-in of pattern 2 precedes the road, so the road comes from the road-only
  pattern, which takes up to four words before the suffix.
\<close>

theorem msida_scenario_result:
  "extract_road_and_town ascii_tab
     (Some (ustr ''Police are investigating an incident on Msida Road, Msida.''))
     [ustr ''L-Imsida'']
   = (Some (ustr ''an incident on Msida Road''), Some (ustr ''L-Imsida''))"
  using msida_scenario by (simp add: msida_report_def)

subsection \<open>The first town of a text\<close>

text \<open>
  Claim C1 does not hold of the code. With the gazetteer "L-Imsida", "Bormla" and the text
  "Msida Bormla L-Imsida", the variant matched at the smallest offset is "Msida", at
  offset 0, a variant of "L-Imsida"; "Bormla" is matched at offset 6. The loop over the
  variations of "L-Imsida" stops at the variation "L-Imsida" itself, found at offset 13,
  so the offset recorded for that town is 13 and \<open>extract_town\<close> returns "Bormla".
\<close>

theorem extract_town_first_variant_offset:
  "extract_town ascii_tab (Some (ustr ''Msida Bormla L-Imsida'')) [ustr ''L-Imsida'', ustr ''Bormla'']
     = Some (ustr ''Bormla'') \<and>
   build_town_lookup [ustr ''L-Imsida'', ustr ''Bormla'']
     = [(ustr ''L-Imsida'', [ustr ''L-Imsida'', ustr ''Imsida'', ustr ''Msida'']),
        (ustr ''Bormla'', [ustr ''Bormla'', ustr ''Cospicua''])] \<and>
   normalize_apostrophes (ustr ''Msida Bormla L-Imsida'') = ustr ''Msida Bormla L-Imsida'' \<and>
   re_search ascii_tab False (town_pattern (ustr ''Msida'')) (ustr ''Msida Bormla L-Imsida'')
     = Some (0, 5, None) \<and>
   re_search ascii_tab False (town_pattern (ustr ''L-Imsida'')) (ustr ''Msida Bormla L-Imsida'')
     = Some (13, 21, None) \<and>
   re_search ascii_tab False (town_pattern (ustr ''Bormla'')) (ustr ''Msida Bormla L-Imsida'')
     = Some (6, 12, None) \<and>
   re_search ascii_tab False (town_pattern (ustr ''Cospicua'')) (ustr ''Msida Bormla L-Imsida'')
     = None"
  by (simp add: town_defs lookup_defs norm_defs search_defs ustr_def)

subsection \<open>One entry for each town, variants shared between towns\<close>

lemma build_town_lookup_distinct_names:
  assumes "distinct g"
  shows "distinct (map fst (build_town_lookup g))"
proof -
  have "map fst (map town_entry g) = g"
    by (simp add: town_entry_fst comp_def)
  with assms have "distinct (map fst (map town_entry g))" by simp
  then have d: "distinct (map town_entry g)" and i: "inj_on fst (set (map town_entry g))"
    by (simp_all only: distinct_map)
  show ?thesis
    unfolding build_town_lookup_def sort_desc_def distinct_map
    using d i by simp
qed

text \<open>
  Claim C9, amended. For every gazetteer of distinct canonical names, the index holds
  exactly one entry for each canonical town of the gazetteer and for no other name, and
  the variants of an entry include its canonical name. (A variant may belong to the
  entries of several towns.)
\<close>

theorem lookup_one_entry_per_town:
  assumes "distinct g"
  shows "distinct (map fst (build_town_lookup g)) \<and>
         set (map fst (build_town_lookup g)) = set g \<and>
         (\<forall>e \<in> set (build_town_lookup g). fst e \<in> set (snd e))"
proof (intro conjI ballI)
  show "distinct (map fst (build_town_lookup g))"
    using assms by (rule build_town_lookup_distinct_names)
  show "set (map fst (build_town_lookup g)) = set g"
    by (simp add: set_build_town_lookup image_comp comp_def town_entry_fst)
next
  fix e assume "e \<in> set (build_town_lookup g)"
  then obtain t where "e = town_entry t" by (auto simp: set_build_town_lookup)
  then show "fst e \<in> set (snd e)"
    by (simp add: town_entry_fst town_entry_has_town)
qed

lemma rabat_lookup:
  "build_town_lookup [ustr ''Rabat'', ustr ''Ir-Rabat''] =
     [(ustr ''Ir-Rabat'', [ustr ''Ir-Rabat'', ustr ''Rabat'', ustr ''Victoria'']),
      (ustr ''Rabat'', [ustr ''Rabat''])]"
  by (simp add: lookup_defs ustr_def)

text \<open>
  Claim C9 as stated fails: the gazetteer of the distinct names "Rabat" and "Ir-Rabat"
  gives an index in which the variant "Rabat" belongs to the entries of both towns.
\<close>

theorem shared_variant_counterexample:
  "distinct [ustr ''Rabat'', ustr ''Ir-Rabat''] \<and>
   (ustr ''Ir-Rabat'', [ustr ''Ir-Rabat'', ustr ''Rabat'', ustr ''Victoria''])
      \<in> set (build_town_lookup [ustr ''Rabat'', ustr ''Ir-Rabat'']) \<and>
   (ustr ''Rabat'', [ustr ''Rabat'']) \<in> set (build_town_lookup [ustr ''Rabat'', ustr ''Ir-Rabat'']) \<and>
   ustr ''Ir-Rabat'' \<noteq> ustr ''Rabat'' \<and>
   ustr ''Rabat'' \<in> set [ustr ''Ir-Rabat'', ustr ''Rabat'', ustr ''Victoria''] \<and>
   ustr ''Rabat'' \<in> set [ustr ''Rabat'']"
  by (simp add: rabat_lookup) (simp add: ustr_def)

text \<open>The amended claim C9 at the gazetteer of "Rabat" and "Ir-Rabat".\<close>

theorem lookup_one_entry_per_town_witness:
  "distinct [ustr ''Rabat'', ustr ''Ir-Rabat''] \<and>
   distinct (map fst (build_town_lookup [ustr ''Rabat'', ustr ''Ir-Rabat''])) \<and>
   set (map fst (build_town_lookup [ustr ''Rabat'', ustr ''Ir-Rabat''])) = {ustr ''Rabat'', ustr ''Ir-Rabat''} \<and>
   (ustr ''Ir-Rabat'', [ustr ''Ir-Rabat'', ustr ''Rabat'', ustr ''Victoria''])
      \<in> set (build_town_lookup [ustr ''Rabat'', ustr ''Ir-Rabat'']) \<and>
   ustr ''Ir-Rabat'' \<in> set [ustr ''Ir-Rabat'', ustr ''Rabat'', ustr ''Victoria'']"
proof -
  have h: "distinct [ustr ''Rabat'', ustr ''Ir-Rabat'']" by (simp add: ustr_def)
  have e: "(ustr ''Ir-Rabat'', [ustr ''Ir-Rabat'', ustr ''Rabat'', ustr ''Victoria''])
      \<in> set (build_town_lookup [ustr ''Rabat'', ustr ''Ir-Rabat''])"
    by (simp add: rabat_lookup)
  from lookup_one_entry_per_town [OF h] h e show ?thesis by auto
qed

text \<open>Claim C6 at the gazetteer of "Rabat" and "Ir-Rabat": lengths 8, then 5.\<close>

theorem lookup_sorted_witness:
  "Suc 0 < length (build_town_lookup [ustr ''Rabat'', ustr ''Ir-Rabat'']) \<and>
   Max (length ` set (snd (build_town_lookup [ustr ''Rabat'', ustr ''Ir-Rabat''] ! Suc 0)))
     \<le> Max (length ` set (snd (build_town_lookup [ustr ''Rabat'', ustr ''Ir-Rabat''] ! 0))) \<and>
   Max (length ` set (snd (build_town_lookup [ustr ''Rabat'', ustr ''Ir-Rabat''] ! Suc 0))) = 5 \<and>
   Max (length ` set (snd (build_town_lookup [ustr ''Rabat'', ustr ''Ir-Rabat''] ! 0))) = 8"
proof -
  have h: "Suc 0 < length (build_town_lookup [ustr ''Rabat'', ustr ''Ir-Rabat''])"
    by (simp add: rabat_lookup)
  from lookup_sorted_by_longest_variant [OF h] h show ?thesis
    by (simp only: rabat_lookup) (simp add: ustr_def)
qed

subsection \<open>Returned towns are canonical names\<close>

lemma names_build_town_lookup: "fst ` set (build_town_lookup g) = set g"
  by (simp add: set_build_town_lookup image_comp comp_def town_entry_fst)

lemma collect_matches_names:
  "(p, t) \<in> set (collect_matches T nc lk) \<Longrightarrow> t \<in> fst ` set lk"
proof (induction lk)
  case Nil
  then show ?case by simp
next
  case (Cons e lk)
  obtain official_name variations where e: "e = (official_name, variations)" by (cases e)
  from Cons.prems have "t = official_name \<or> (p, t) \<in> set (collect_matches T nc lk)"
    by (auto simp: e split: option.splits)
  then show ?case
  proof
    assume "t = official_name"
    then show ?thesis by (simp add: e)
  next
    assume "(p, t) \<in> set (collect_matches T nc lk)"
    then have "t \<in> fst ` set lk" by (rule Cons.IH)
    then show ?thesis by simp
  qed
qed

lemma build_town_lookup_name: "e \<in> set (build_town_lookup g) \<Longrightarrow> fst e \<in> set g"
proof -
  assume "e \<in> set (build_town_lookup g)"
  then obtain t where "e = town_entry t" and "t \<in> set g"
    by (auto simp: set_build_town_lookup)
  then show ?thesis by (simp add: town_entry_fst)
qed

lemma extract_town_canonical:
  assumes "extract_town T content g = Some t"
  shows "t \<in> set g"
proof -
  let ?ms = "collect_matches T (normalize_apostrophes (the content)) (build_town_lookup g)"
  from assms obtain m rest where srt: "sort_key fst ?ms = m # rest" and t: "t = snd m"
    by (auto simp: extract_town_def Let_def split: if_splits list.splits)
  have "m \<in> set (sort_key fst ?ms)" by (simp add: srt)
  then have "m \<in> set ?ms" by simp
  then have "(fst m, t) \<in> set ?ms" by (simp add: t)
  then have "t \<in> fst ` set (build_town_lookup g)"
    by (rule collect_matches_names)
  then show ?thesis by (auto dest: build_town_lookup_name)
qed

lemma all_towns_loop_names:
  "set (all_towns_loop T nc lk found) \<subseteq> set found \<union> fst ` set lk"
proof (induction lk arbitrary: found)
  case Nil
  show ?case by simp
next
  case (Cons e lk)
  obtain official_name variations where e: "e = (official_name, variations)" by (cases e)
  show ?case
    using Cons.IH [of found] Cons.IH [of "found @ [official_name]"]
    by (auto simp: e split: option.splits)
qed

lemma extract_all_towns_canonical: "set (extract_all_towns T content g) \<subseteq> set g"
  using all_towns_loop_names [of T "normalize_apostrophes (the content)" "build_town_lookup g" "[]"]
  by (simp add: extract_all_towns_def names_build_town_lookup)

lemma cascade_town: "cascade T nc tv = Some r \<Longrightarrow> snd r = Some (snd tv)"
  by (auto simp: cascade_def Let_def split: option.splits)

lemma all_town_variations_names:
  "(v, t) \<in> set (all_town_variations lk) \<Longrightarrow> t \<in> fst ` set lk"
  by (force simp: all_town_variations_def set_sort_desc)

lemma extract_road_and_town_canonical:
  assumes "snd (extract_road_and_town T content g) = Some t"
  shows "t \<in> set g"
proof (cases "first_some (cascade T (normalize_apostrophes (the content)))
                (all_town_variations (build_town_lookup g))")
  case None
  with assms have "extract_town T content g = Some t"
    by (simp add: extract_road_and_town_def Let_def split: if_splits)
  then show ?thesis by (rule extract_town_canonical)
next
  case (Some r)
  from first_some_SomeD [OF Some] obtain tv where
    tv: "tv \<in> set (all_town_variations (build_town_lookup g))"
    and r: "cascade T (normalize_apostrophes (the content)) tv = Some r"
    by blast
  from assms Some have "snd r = Some t"
    by (simp add: extract_road_and_town_def Let_def split: if_splits)
  with cascade_town [OF r] have "t = snd tv" by simp
  with tv have "(fst tv, t) \<in> set (all_town_variations (build_town_lookup g))" by simp
  then have "t \<in> fst ` set (build_town_lookup g)"
    by (rule all_town_variations_names)
  then show ?thesis by (auto dest: build_town_lookup_name)
qed

text \<open>
  Claim C10. A town returned by \<open>extract_town\<close> or by \<open>extract_road_and_town\<close>, and
  every element of the list returned by \<open>extract_all_towns\<close>, is one of the canonical
  names of the gazetteer.
\<close>

theorem extracted_town_is_canonical:
  "(extract_town T content g = Some t \<longrightarrow> t \<in> set g) \<and>
   (snd (extract_road_and_town T content g) = Some t \<longrightarrow> t \<in> set g) \<and>
   (t \<in> set (extract_all_towns T content g) \<longrightarrow> t \<in> set g)"
  using extract_town_canonical extract_road_and_town_canonical extract_all_towns_canonical
  by blast

lemma triq_report_normal: "normalize_apostrophes triq_report = triq_report"
  by (simp add: norm_defs triq_report_def ustr_def)

lemma triq_report_town:
  "first_variation_match ascii_tab triq_report [ustr ''L-Imsida'', ustr ''Imsida'', ustr ''Msida'']
     = Some (10, 15, None)"
  by (simp add: first_variation_match_def town_pattern_def norm_defs search_defs
      triq_report_def ustr_def)

lemma triq_extract_town:
  "extract_town ascii_tab (Some triq_report) [ustr ''L-Imsida''] = Some (ustr ''L-Imsida'')"
  using triq_report_town
  by (simp add: extract_town_def absent_def triq_report_normal imsida_lookup m_start_def)
     (simp add: triq_report_def ustr_def)

lemma triq_extract_all_towns:
  "extract_all_towns ascii_tab (Some triq_report) [ustr ''L-Imsida''] = [ustr ''L-Imsida'']"
  using triq_report_town
  by (simp add: extract_all_towns_def absent_def triq_report_normal imsida_lookup)
     (simp add: triq_report_def ustr_def)

lemma triq_cascade:
  "cascade ascii_tab triq_report (ustr ''Msida'', ustr ''L-Imsida'')
     = Some (Some (ustr ''Triq Rue''), Some (ustr ''L-Imsida''))"
  by (simp add: cascade_def maltese_prefixes_def pattern1_def search_defs group1_def
      str_strip_def clean_trailing_preposition_def trailing_preposition_def m_start_def
      triq_report_def ustr_def)

lemma triq_extract_road_and_town:
  "extract_road_and_town ascii_tab (Some triq_report) [ustr ''L-Imsida'']
     = (Some (ustr ''Triq Rue''), Some (ustr ''L-Imsida''))"
proof -
  have "\<not> occurs (char_eq ascii_tab icase) (ustr ''L-Imsida'') triq_report"
    and "\<not> occurs (char_eq ascii_tab icase) (ustr ''Imsida'') triq_report" for icase
    by (cases icase; simp add: triq_report_def ustr_def char_eq_def ascii_tab_simps ascii_lower_def)+
  then have "first_some (cascade ascii_tab triq_report)
          [(ustr ''L-Imsida'', ustr ''L-Imsida''), (ustr ''Imsida'', ustr ''L-Imsida''),
           (ustr ''Msida'', ustr ''L-Imsida'')]
        = Some (Some (ustr ''Triq Rue''), Some (ustr ''L-Imsida''))"
    by (simp add: cascade_no_town triq_cascade)
  moreover have "triq_report \<noteq> []"
    by (simp add: triq_report_def ustr_def)
  ultimately show ?thesis
    by (simp add: extract_road_and_town_def absent_def triq_report_normal imsida_lookup
        imsida_variations)
qed

text \<open>
  Claim C10 at the text "Triq Rue, Msida" and the gazetteer of "L-Imsida": all three
  functions find the town, and return its canonical name.
\<close>

theorem extracted_town_is_canonical_witness:
  "extract_town ascii_tab (Some (ustr ''Triq Rue, Msida'')) [ustr ''L-Imsida''] = Some (ustr ''L-Imsida'') \<and>
   snd (extract_road_and_town ascii_tab (Some (ustr ''Triq Rue, Msida'')) [ustr ''L-Imsida''])
     = Some (ustr ''L-Imsida'') \<and>
   ustr ''L-Imsida'' \<in> set (extract_all_towns ascii_tab (Some (ustr ''Triq Rue, Msida'')) [ustr ''L-Imsida'']) \<and>
   ustr ''L-Imsida'' \<in> set [ustr ''L-Imsida'']"
  using extracted_town_is_canonical [of ascii_tab "Some triq_report" "[ustr ''L-Imsida'']" "ustr ''L-Imsida''"]
    triq_extract_town triq_extract_road_and_town triq_extract_all_towns
  by (simp add: triq_report_def)

text \<open>
  An example of the order of \<open>extract_all_towns\<close>: "Bormla" comes first in the text, and
  second in the result, as in the index.
\<close>

lemma index_order_example:
  "extract_all_towns ascii_tab (Some (ustr ''Bormla Msida'')) [ustr ''L-Imsida'', ustr ''Bormla'']
     = [ustr ''L-Imsida'', ustr ''Bormla'']"
  by (simp add: town_defs lookup_defs norm_defs search_defs ustr_def)

subsection \<open>Absent content, and no match\<close>

lemma first_some_None_iff: "first_some f xs = None \<longleftrightarrow> (\<forall>x \<in> set xs. f x = None)"
  by (induction xs) (auto split: option.splits)

lemma collect_matches_Nil_iff:
  "collect_matches T nc lk = [] \<longleftrightarrow> (\<forall>e \<in> set lk. first_variation_match T nc (snd e) = None)"
  by (induction lk) (auto split: option.splits)

lemma no_town_match_iff:
  "no_town_match T c g \<longleftrightarrow>
     (\<forall>e \<in> set (build_town_lookup g).
        first_variation_match T (normalize_apostrophes c) (snd e) = None)"
  by (simp add: no_town_match_def first_variation_match_def first_some_None_iff)

lemma extract_town_None_iff:
  assumes "c \<noteq> []"
  shows "extract_town T (Some c) g = None \<longleftrightarrow> no_town_match T c g"
proof -
  let ?ms = "collect_matches T (normalize_apostrophes c) (build_town_lookup g)"
  have srt: "sort_key fst ?ms = [] \<longleftrightarrow> ?ms = []"
    using length_sort [of fst ?ms] by (metis length_0_conv)
  have "extract_town T (Some c) g = None \<longleftrightarrow> sort_key fst ?ms = []"
    using assms by (cases "sort_key fst ?ms") (simp_all add: extract_town_def absent_def Let_def)
  then show ?thesis
    by (simp add: srt collect_matches_Nil_iff no_town_match_iff)
qed

lemma all_towns_loop_unchanged:
  "all_towns_loop T nc lk found = found \<longleftrightarrow>
     (\<forall>e \<in> set lk. fst e \<in> set found \<or> first_variation_match T nc (snd e) = None)"
proof (induction lk arbitrary: found)
  case Nil
  show ?case by simp
next
  case (Cons e lk)
  obtain official_name variations where e: "e = (official_name, variations)" by (cases e)
  show ?case
  proof (cases "official_name \<notin> set found \<and> first_variation_match T nc variations \<noteq> None")
    case False
    then have "all_towns_loop T nc (e # lk) found = all_towns_loop T nc lk found"
      by (auto simp: e split: option.splits)
    with False Cons.IH [of found] show ?thesis by (auto simp: e)
  next
    case True
    then have step: "all_towns_loop T nc (e # lk) found
        = all_towns_loop T nc lk (found @ [official_name])"
      by (auto simp: e)
    from all_towns_loop_shape [of T nc lk "found @ [official_name]"]
    obtain ys where "all_towns_loop T nc lk (found @ [official_name]) = (found @ [official_name]) @ ys"
      by blast
    then have "length (all_towns_loop T nc (e # lk) found) > length found"
      by (simp add: step)
    then have "all_towns_loop T nc (e # lk) found \<noteq> found" by auto
    with True show ?thesis by (auto simp: e)
  qed
qed

lemma extract_all_towns_Nil_iff:
  assumes "c \<noteq> []"
  shows "extract_all_towns T (Some c) g = [] \<longleftrightarrow> no_town_match T c g"
  using assms all_towns_loop_unchanged [of T "normalize_apostrophes c" "build_town_lookup g" "[]"]
  by (simp add: extract_all_towns_def absent_def no_town_match_iff)

lemma cascade_None:
  assumes "\<forall>pre \<in> set maltese_prefixes. re_search T False (pattern1 pre (fst tv)) nc = None"
    and "\<forall>suf \<in> set english_suffixes. re_search T True (pattern2 suf (fst tv)) nc = None"
    and "re_search T True (pattern3 (fst tv)) nc = None"
  shows "cascade T nc tv = None"
proof -
  have "first_some (\<lambda>pre. re_search T False (pattern1 pre (fst tv)) nc) maltese_prefixes = None"
    using assms(1) by (simp add: first_some_None_iff)
  moreover
  have "first_some (\<lambda>suf. re_search T True (pattern2 suf (fst tv)) nc) english_suffixes = None"
    using assms(2) by (simp add: first_some_None_iff)
  ultimately show ?thesis
    using assms(3) by (simp add: cascade_def Let_def)
qed

lemma fallback_road_None:
  assumes "no_road_match T c"
  shows "fallback_road T (normalize_apostrophes c) = None"
proof -
  let ?nc = "normalize_apostrophes c"
  have "first_some (\<lambda>pre. re_search T False (road_pattern_maltese pre) ?nc) maltese_prefixes = None"
    using assms by (simp add: no_road_match_def first_some_None_iff)
  moreover
  have "first_some (\<lambda>suf. re_search T False (road_pattern_english suf) ?nc) english_suffixes = None"
    using assms by (simp add: no_road_match_def first_some_None_iff)
  ultimately show ?thesis
    by (simp add: fallback_road_def)
qed

lemma no_joint_match_fallback:
  assumes "c \<noteq> []" and "no_joint_match T c g"
  shows "extract_road_and_town T (Some c) g
           = (fallback_road T (normalize_apostrophes c), extract_town T (Some c) g)"
proof -
  have "first_some (cascade T (normalize_apostrophes c))
          (all_town_variations (build_town_lookup g)) = None"
    unfolding first_some_None_iff
    using assms(2) by (auto simp: no_joint_match_def intro!: cascade_None)
  with assms(1) show ?thesis
    by (simp add: extract_road_and_town_def absent_def Let_def)
qed

text \<open>
  Claim C3. For every gazetteer and character table: on an absent content and on the
  empty string \<open>extract_road_and_town\<close> returns (absent, absent), \<open>extract_town\<close>
  returns absent and \<open>extract_all_towns\<close> the empty list. On a content that is present,
  the absence of a match is a value too: \<open>extract_town\<close> returns absent exactly when no
  variation of the index is found in the text, and exactly then \<open>extract_all_towns\<close>
  returns the empty list; \<open>extract_road_and_town\<close> returns an absent town when no joint
  pattern and no variation matches, an absent road when no joint pattern and no road
  pattern matches, and (absent, absent) when nothing matches. On these paths the one
  operation of the source that can raise is \<open>max\<close> over an empty sequence, in the sort
  key of the index, and no entry of the index has an empty list of variations.
\<close>

theorem absence_propagation:
  "extract_road_and_town T None g = (None, None) \<and>
   extract_road_and_town T (Some []) g = (None, None) \<and>
   extract_town T None g = None \<and> extract_town T (Some []) g = None \<and>
   extract_all_towns T None g = [] \<and> extract_all_towns T (Some []) g = [] \<and>
   (c \<noteq> [] \<longrightarrow> (extract_town T (Some c) g = None) = no_town_match T c g) \<and>
   (c \<noteq> [] \<longrightarrow> (extract_all_towns T (Some c) g = []) = no_town_match T c g) \<and>
   (c \<noteq> [] \<and> no_joint_match T c g \<and> no_town_match T c g \<longrightarrow>
      snd (extract_road_and_town T (Some c) g) = None) \<and>
   (c \<noteq> [] \<and> no_joint_match T c g \<and> no_road_match T c \<longrightarrow>
      fst (extract_road_and_town T (Some c) g) = None) \<and>
   (c \<noteq> [] \<and> no_joint_match T c g \<and> no_town_match T c g \<and> no_road_match T c \<longrightarrow>
      extract_road_and_town T (Some c) g = (None, None)) \<and>
   [] \<notin> snd ` set (build_town_lookup g)"
proof -
  have a: "extract_road_and_town T None g = (None, None) \<and>
   extract_road_and_town T (Some []) g = (None, None) \<and>
   extract_town T None g = None \<and> extract_town T (Some []) g = None \<and>
   extract_all_towns T None g = [] \<and> extract_all_towns T (Some []) g = []"
    by (simp add: extract_road_and_town_def extract_town_def extract_all_towns_def absent_def)
  have b: "[] \<notin> snd ` set (build_town_lookup g)"
    using lookup_entry_nonempty [of _ g] by force
  show ?thesis
    using a b
    by (simp add: extract_town_None_iff extract_all_towns_Nil_iff no_joint_match_fallback
        fallback_road_None)
qed

lemma plain_report_normal: "normalize_apostrophes plain_report = plain_report"
  by (simp add: norm_defs plain_report_def ustr_def)

lemma plain_report_no_town:
  "\<forall>v \<in> set [ustr ''L-Imsida'', ustr ''Imsida'', ustr ''Msida''].
     \<not> occurs (char_eq ascii_tab False) v plain_report \<and>
     \<not> occurs (char_eq ascii_tab True) v plain_report"
  by (simp add: plain_report_def ustr_def char_eq_def ascii_tab_simps ascii_lower_def)

lemma plain_report_no_road_word:
  "(\<forall>pre \<in> set maltese_prefixes. \<not> occurs (char_eq ascii_tab False) pre plain_report) \<and>
   (\<forall>suf \<in> set english_suffixes. \<not> occurs (char_eq ascii_tab False) suf plain_report)"
  by (simp add: maltese_prefixes_def english_suffixes_def plain_report_def ustr_def char_eq_def)

lemma plain_no_town_match: "no_town_match ascii_tab plain_report [ustr ''L-Imsida'']"
proof -
  have "re_search ascii_tab False (town_pattern v) plain_report = None"
    if "v \<in> set [ustr ''L-Imsida'', ustr ''Imsida'', ustr ''Msida'']" for v
  proof -
    from that have "normalize_apostrophes v = v"
      by (auto simp: norm_defs ustr_def)
    moreover from that plain_report_no_town
    have "\<not> occurs (char_eq ascii_tab False) v plain_report" by blast
    ultimately show ?thesis
      using re_search_needs [OF needs_town_pattern, of ascii_tab False v plain_report] by simp
  qed
  then show ?thesis
    by (simp add: no_town_match_def imsida_lookup plain_report_normal)
qed

lemma plain_no_joint_match: "no_joint_match ascii_tab plain_report [ustr ''L-Imsida'']"
proof -
  have "(\<forall>pre \<in> set maltese_prefixes. re_search ascii_tab False (pattern1 pre v) plain_report = None) \<and>
        (\<forall>suf \<in> set english_suffixes. re_search ascii_tab True (pattern2 suf v) plain_report = None) \<and>
        re_search ascii_tab True (pattern3 v) plain_report = None"
    if "v \<in> set [ustr ''L-Imsida'', ustr ''Imsida'', ustr ''Msida'']" for v
  proof -
    from that plain_report_no_town
    have cs: "\<not> occurs (char_eq ascii_tab False) v plain_report"
      and ci: "\<not> occurs (char_eq ascii_tab True) v plain_report" by blast+
    show ?thesis
      using re_search_needs [OF needs_pattern1_town cs] re_search_needs [OF needs_pattern2_town ci]
        re_search_needs [OF needs_pattern3_town ci]
      by blast
  qed
  then show ?thesis
    by (simp add: no_joint_match_def imsida_lookup imsida_variations plain_report_normal)
qed

lemma plain_no_road_match: "no_road_match ascii_tab plain_report"
  using plain_report_no_road_word
  by (auto simp: no_road_match_def plain_report_normal
      intro!: re_search_needs [OF needs_road_maltese] re_search_needs [OF needs_road_english])

text \<open>
  Claim C3 at the text "No location mentioned here." and the gazetteer of "L-Imsida":
  nothing matches, and the three functions return absent, the empty list and
  (absent, absent).
\<close>

theorem absence_propagation_witness:
  "ustr ''No location mentioned here.'' \<noteq> [] \<and>
   extract_town ascii_tab (Some (ustr ''No location mentioned here.'')) [ustr ''L-Imsida''] = None \<and>
   extract_all_towns ascii_tab (Some (ustr ''No location mentioned here.'')) [ustr ''L-Imsida''] = [] \<and>
   extract_road_and_town ascii_tab (Some (ustr ''No location mentioned here.'')) [ustr ''L-Imsida'']
     = (None, None) \<and>
   build_town_lookup [ustr ''L-Imsida'']
     = [(ustr ''L-Imsida'', [ustr ''L-Imsida'', ustr ''Imsida'', ustr ''Msida''])]"
proof -
  have ne: "plain_report \<noteq> []" by (simp add: plain_report_def ustr_def)
  from absence_propagation [of ascii_tab "[ustr ''L-Imsida'']" plain_report]
    ne plain_no_town_match plain_no_joint_match plain_no_road_match imsida_lookup
  show ?thesis by (simp add: plain_report_def)
qed

end
